theory Spec2Isabelle
  imports Main "HOL-Library.Word" "HOL-Library.List_Lexorder"
begin

section \<open>JavaScript strings\<close>

text \<open>
  A JavaScript string is a sequence of 16-bit UTF-16 code units. The relational
  operators on strings, and \<open>Array.prototype.sort\<close> without a comparator, compare
  code unit by code unit, a proper prefix being smaller: this is the lexicographic
  order of lists over the (unsigned) order of words.
\<close>

type_synonym jsstring = "16 word list"

text \<open>ASCII literals of the source, written as \<open>js ''...''\<close>.\<close>

definition js :: "string \<Rightarrow> jsstring" where
  "js s = map of_char s"

text \<open>
  \<open>String.prototype.trim\<close> removes leading and trailing WhiteSpace and
  LineTerminator code points (ECMAScript: TAB, VT, FF, SP, NBSP, ZWNBSP, the
  Unicode space separators, LF, CR, LS, PS). All of them are single code units.
\<close>

definition isWhiteSpace :: "16 word \<Rightarrow> bool" where
  "isWhiteSpace c \<longleftrightarrow>
     c \<in> set [0x9, 0xA, 0xB, 0xC, 0xD, 0x20, 0xA0, 0x1680,
                0x2000, 0x2001, 0x2002, 0x2003, 0x2004, 0x2005, 0x2006, 0x2007,
                0x2008, 0x2009, 0x200A, 0x2028, 0x2029, 0x202F, 0x205F, 0x3000,
                0xFEFF]"

definition trim :: "jsstring \<Rightarrow> jsstring" where
  "trim s = rev (dropWhile isWhiteSpace (rev (dropWhile isWhiteSpace s)))"

text \<open>\<open>Array.prototype.join\<close> on an array of strings.\<close>

fun join :: "jsstring \<Rightarrow> jsstring list \<Rightarrow> jsstring" where
  "join sep [] = []"
| "join sep [x] = x"
| "join sep (x # y # ys) = x @ sep @ join sep (y # ys)"

section \<open>ConversationIdentity: \<open>getChatId\<close>\<close>

text \<open>
  \<^verbatim>\<open>const getChatId = (uid1, uid2) => [uid1, uid2].sort().join('_')\<close>
  (ChatView.tsx, lines 15-17). \<^const>\<open>sort\<close> is the stable insertion sort of the
  library; on two elements it swaps them exactly when the second is smaller.
\<close>

definition getChatId :: "jsstring \<Rightarrow> jsstring \<Rightarrow> jsstring" where
  "getChatId uid1 uid2 = join (js ''_'') (sort [uid1, uid2])"

section \<open>The store interface used by the component\<close>

text \<open>
  The values the component writes: strings, an array of strings, and the
  \<open>serverTimestamp()\<close> sentinel, which the server replaces by its own time when
  the write commits.
\<close>

datatype fieldValue =
    StrV jsstring
  | ArrV "jsstring list"
  | ServerTimestampV
  | TimestampV nat

text \<open>
  Document references: \<open>doc(db, 'chats', chatId)\<close> and a document of the
  collection \<open>collection(db, 'chats', chatId, 'messages')\<close>.
\<close>

datatype docRef =
    ChatDoc jsstring
  | MessageDoc jsstring jsstring

type_synonym docData = "string \<rightharpoonup> fieldValue"

type_synonym store = "docRef \<rightharpoonup> docData"

text \<open>
  One \<open>batch.set(ref, data, {merge})\<close> call; the object literal is kept as the
  list of its fields, in the order of the source.
\<close>

datatype "write" = SetDoc docRef "(string \<times> fieldValue) list" bool

fun resolveTimestamp :: "nat \<Rightarrow> fieldValue \<Rightarrow> fieldValue" where
  "resolveTimestamp t ServerTimestampV = TimestampV t"
| "resolveTimestamp t v = v"

text \<open>
  The effect of one committed write at server time \<open>t\<close>: without \<open>merge\<close> the
  document is replaced, with \<open>merge\<close> the given fields are written over the
  existing document (which is created when absent) and the other fields are kept.
\<close>

fun applyWrite :: "nat \<Rightarrow> store \<Rightarrow> write \<Rightarrow> store" where
  "applyWrite t st (SetDoc r fields mrg) =
     (let d = map_option (resolveTimestamp t) \<circ> map_of fields
      in st(r \<mapsto> (if mrg then (case st r of None \<Rightarrow> d | Some old \<Rightarrow> old ++ d) else d)))"

text \<open>
  \<open>batch.commit()\<close> either resolves, and then every write of the batch has been
  applied at one server time, or rejects with an error, and then none has. This is
  the contract of the store's write batch; the error object of a rejection carries a
  \<open>code\<close> when it is a store error.
\<close>

datatype outcome =
    Committed nat
  | Rejected "jsstring option"

fun settle :: "outcome \<Rightarrow> write list \<Rightarrow> store \<Rightarrow> store" where
  "settle (Committed t) ws st = foldl (applyWrite t) st ws"
| "settle (Rejected code) ws st = st"

text \<open>
  A document of a query snapshot: its id and its data. The listener builds a
  message as \<^verbatim>\<open>{ id: doc.id, ...doc.data() }\<close>.
\<close>

type_synonym snapDoc = "jsstring \<times> (string \<times> fieldValue) list"

type_synonym message = docData

fun toMessage :: "snapDoc \<Rightarrow> message" where
  "toMessage (i, fields) = [''id'' \<mapsto> StrV i] ++ map_of fields"

section \<open>The component \<open>ChatView\<close>\<close>

text \<open>
  A send that has reached \<open>await batch.commit()\<close>: the batch handed to the store
  and the local \<open>textToSend\<close> its continuation has captured.
\<close>

record pendingSend =
  batch :: "write list"
  textToSend :: jsstring

text \<open>
  The six \<open>useState\<close> cells, the two props (the uids of \<open>currentUser\<close> and
  \<open>chatPartner\<close>) of the latest committed render, the dependency \<open>[chatId]\<close> the
  subscription effect last ran with, and the environment the component acts on: the
  snapshot listeners that are registered (each named by the chat id it listens to),
  the sends awaiting their commit, and the store. Every handler runs on the state of
  the latest render.
\<close>

record chatView =
  messages :: "message list"
  newMessage :: jsstring
  isLoading :: bool
  isSending :: bool
  fetchError :: "jsstring option"
  sendError :: "jsstring option"
  currentUser :: jsstring
  chatPartner :: jsstring
  effectDeps :: jsstring
  listeners :: "jsstring list"
  inflight :: "pendingSend list"
  db :: store

definition chatId :: "chatView \<Rightarrow> jsstring" where
  "chatId s = getChatId (currentUser s) (chatPartner s)"

text \<open>The three user-facing messages of the source, as UTF-16 code units.\<close>

definition fetchFailedMsg :: jsstring where
  "fetchFailedMsg =
     [0x41D, 0x435, 0x20, 0x443, 0x434, 0x430, 0x43B, 0x43E, 0x441, 0x44C, 0x20,
      0x437, 0x430, 0x433, 0x440, 0x443, 0x437, 0x438, 0x442, 0x44C, 0x20, 0x441,
      0x43E, 0x43E, 0x431, 0x449, 0x435, 0x43D, 0x438, 0x44F, 0x2E]"

definition sendDeniedMsg :: jsstring where
  "sendDeniedMsg =
     [0x41E, 0x448, 0x438, 0x431, 0x43A, 0x430, 0x20, 0x43F, 0x440, 0x430, 0x432,
      0x20, 0x434, 0x43E, 0x441, 0x442, 0x443, 0x43F, 0x430, 0x2E, 0x20, 0x41F,
      0x43E, 0x43F, 0x440, 0x43E, 0x431, 0x443, 0x439, 0x442, 0x435, 0x20, 0x43E,
      0x431, 0x43D, 0x43E, 0x432, 0x438, 0x442, 0x44C, 0x20, 0x441, 0x442, 0x440,
      0x430, 0x43D, 0x438, 0x446, 0x443, 0x2E]"

definition sendFailedMsg :: jsstring where
  "sendFailedMsg =
     [0x41D, 0x435, 0x20, 0x443, 0x434, 0x430, 0x43B, 0x43E, 0x441, 0x44C, 0x20,
      0x43E, 0x442, 0x43F, 0x440, 0x430, 0x432, 0x438, 0x442, 0x44C, 0x20, 0x441,
      0x43E, 0x43E, 0x431, 0x449, 0x435, 0x43D, 0x438, 0x435, 0x2E]"

subsection \<open>The subscription effect (lines 30-61)\<close>

text \<open>The success callback of \<open>onSnapshot\<close> (lines 38-46).\<close>

definition onSnapshotNext :: "snapDoc list \<Rightarrow> chatView \<Rightarrow> chatView" where
  "onSnapshotNext docs s =
     s\<lparr>messages := map toMessage docs, fetchError := None, isLoading := False\<rparr>"

text \<open>The error callback of \<open>onSnapshot\<close> (lines 46-58), on \<open>error.code\<close>.\<close>

definition onSnapshotError :: "jsstring \<Rightarrow> chatView \<Rightarrow> chatView" where
  "onSnapshotError code s =
     (if code = js ''permission-denied''
      then s\<lparr>messages := [], fetchError := None, isLoading := False\<rparr>
      else s\<lparr>fetchError := Some fetchFailedMsg, isLoading := False\<rparr>)"

text \<open>
  The body of the effect: \<open>setIsLoading(true)\<close>, \<open>setFetchError(null)\<close>, and the
  registration of a listener on the messages of the current chat id, which becomes
  the dependency of this run. There is no \<open>setMessages\<close> in it.
\<close>

definition subscribeEffect :: "chatView \<Rightarrow> chatView" where
  "subscribeEffect s =
     s\<lparr>isLoading := True, fetchError := None, listeners := listeners s @ [chatId s],
       effectDeps := chatId s\<rparr>"

text \<open>The cleanup the effect returns: \<open>() => unsubscribe()\<close>.\<close>

definition unsubscribe :: "jsstring \<Rightarrow> chatView \<Rightarrow> chatView" where
  "unsubscribe cid s = s\<lparr>listeners := remove1 cid (listeners s)\<rparr>"

text \<open>
  A render with new props is committed first: \<open>chatId\<close> is recomputed on line 28
  from the new props, and no state cell is written. The old listener is still
  registered and the cells are those of the previous chat.
\<close>

definition rerender :: "jsstring \<Rightarrow> jsstring \<Rightarrow> chatView \<Rightarrow> chatView" where
  "rerender u p s = s\<lparr>currentUser := u, chatPartner := p\<rparr>"

text \<open>
  The effect is run after the commit. It has the dependency list \<open>[chatId]\<close>: when
  the chat id is the one of its last run nothing happens; when it differs the
  cleanup of the last run is executed first and the body of the effect after it.
\<close>

definition runEffect :: "chatView \<Rightarrow> chatView" where
  "runEffect s =
     (if chatId s = effectDeps s then s
      else subscribeEffect (unsubscribe (effectDeps s) s))"

text \<open>The first render and the first run of the effect.\<close>

definition mount :: "jsstring \<Rightarrow> jsstring \<Rightarrow> store \<Rightarrow> chatView" where
  "mount u p st =
     subscribeEffect
       \<lparr>messages = [], newMessage = [], isLoading = True, isSending = False,
        fetchError = None, sendError = None, currentUser = u, chatPartner = p,
        effectDeps = getChatId u p, listeners = [], inflight = [], db = st\<rparr>"

subsection \<open>The message pane of the rendered output (lines 125-154)\<close>

datatype pane =
    Spinner
  | ErrorBanner jsstring
  | MessageList "message list"

text \<open>\<open>fetchError ? ... : ...\<close> takes \<open>null\<close> and the empty string as false.\<close>

definition messagePane :: "chatView \<Rightarrow> pane" where
  "messagePane s =
     (if isLoading s then Spinner
      else (case fetchError s of
              None \<Rightarrow> MessageList (messages s)
            | Some e \<Rightarrow> if e = [] then MessageList (messages s) else ErrorBanner e))"

subsection \<open>\<open>handleSendMessage\<close> (lines 70-113)\<close>

text \<open>
  Up to \<open>await batch.commit()\<close>. The id of the new message document is
  generated by \<open>doc(collection(...))\<close>; it is a parameter here. A call inside
  \<open>try\<close> that throws before the commit (a chat id the store refuses as a path
  segment) reaches the same \<open>catch\<close> with nothing written: it is the rejection of
  the commit with no event in between.
\<close>

definition handleSendMessage :: "jsstring \<Rightarrow> chatView \<Rightarrow> chatView" where
  "handleSendMessage newId s =
     (if trim (newMessage s) = [] \<or> isSending s then s
      else
        let text = trim (newMessage s);
            b = [SetDoc (ChatDoc (chatId s))
                   [(''participants'', ArrV [currentUser s, chatPartner s]),
                    (''lastMessageText'', StrV text),
                    (''lastMessageTimestamp'', ServerTimestampV)] True,
                 SetDoc (MessageDoc (chatId s) newId)
                   [(''senderId'', StrV (currentUser s)),
                    (''text'', StrV text),
                    (''createdAt'', ServerTimestampV)] False]
        in s\<lparr>isSending := True, sendError := None, newMessage := [],
             inflight := inflight s @ [\<lparr>batch = b, textToSend = text\<rparr>]\<rparr>)"

text \<open>
  The rest of the handler, run when the commit of the pending send \<open>p\<close> settles:
  nothing but \<open>finally\<close> when it resolves, the \<open>catch\<close> block and \<open>finally\<close>
  when it rejects.
\<close>

definition sendSettled :: "outcome \<Rightarrow> pendingSend \<Rightarrow> chatView \<Rightarrow> chatView" where
  "sendSettled out p s =
     (case out of
        Committed t \<Rightarrow> s\<lparr>isSending := False, db := settle out (batch p) (db s)\<rparr>
      | Rejected code \<Rightarrow>
          s\<lparr>newMessage := textToSend p,
            sendError := Some (if code = Some (js ''permission-denied'')
                               then sendDeniedMsg else sendFailedMsg),
            isSending := False,
            db := settle out (batch p) (db s)\<rparr>)"

subsection \<open>Events\<close>

text \<open>
  Everything that can happen to a mounted component: the user edits the input
  (\<open>onChange\<close>), submits the form, the commit of the oldest pending send settles, a
  listener delivers a snapshot or an error, the parent renders with new props, the
  effects of the latest commit are run. A listener that has been unsubscribed
  delivers nothing.
\<close>

datatype event =
    Type jsstring
  | Submit jsstring
  | CommitSettled outcome
  | Snapshot jsstring "snapDoc list"
  | ListenError jsstring jsstring
  | Props jsstring jsstring
  | Effect

fun step :: "chatView \<Rightarrow> event \<Rightarrow> chatView" where
  "step s (Type v) = s\<lparr>newMessage := v\<rparr>"
| "step s (Submit newId) = handleSendMessage newId s"
| "step s (CommitSettled out) =
     (case inflight s of
        [] \<Rightarrow> s
      | p # ps \<Rightarrow> sendSettled out p (s\<lparr>inflight := ps\<rparr>))"
| "step s (Snapshot cid docs) =
     (if cid \<in> set (listeners s) then onSnapshotNext docs s else s)"
| "step s (ListenError cid code) =
     (if cid \<in> set (listeners s) then onSnapshotError code s else s)"
| "step s (Props u p) = rerender u p s"
| "step s Effect = runEffect s"

definition run :: "chatView \<Rightarrow> event list \<Rightarrow> chatView" where
  "run s evs = foldl step s evs"

fun isSettle :: "event \<Rightarrow> bool" where
  "isSettle (CommitSettled out) = True"
| "isSettle e = False"

fun isListenerEvent :: "event \<Rightarrow> bool" where
  "isListenerEvent (Snapshot cid docs) = True"
| "isListenerEvent (ListenError cid code) = True"
| "isListenerEvent e = False"

text \<open>The states a mounted component can be in.\<close>

inductive reachable :: "chatView \<Rightarrow> bool" where
  reachable_mount: "reachable (mount u p st)"
| reachable_step: "reachable s \<Longrightarrow> reachable (step s e)"

text \<open>
  The guard of \<open>handleSendMessage\<close> (line 72) lets a submission through: the
  trimmed draft is not empty and no send is in flight.
\<close>

definition accepted :: "chatView \<Rightarrow> bool" where
  "accepted s \<longleftrightarrow> \<not> (trim (newMessage s) = [] \<or> isSending s)"

fun isType :: "event \<Rightarrow> bool" where
  "isType (Type v) = True"
| "isType e = False"

text \<open>
  The flag \<open>isSending\<close> mirrors the sends awaiting their commit: one while it is
  set, none otherwise.
\<close>

definition sendInv :: "chatView \<Rightarrow> bool" where
  "sendInv s \<longleftrightarrow> (if isSending s then length (inflight s) = 1 else inflight s = [])"

section \<open>Properties of \<open>getChatId\<close>\<close>

lemma getChatId_unfold:
  "getChatId a b = (if b < a then b @ js ''_'' @ a else a @ js ''_'' @ b)"
  by (auto simp add: getChatId_def)

lemma getChatId_cases:
  "getChatId a b = (if b < a then b @ 0x5F # a else a @ 0x5F # b)"
  by (simp add: getChatId_unfold js_def)

text \<open>
  Claim C6. The chat id does not depend on the order of the two uids:
  \<open>getChatId a b = getChatId b a\<close> for all strings, and both
  \<open>getChatId "u1" "u2"\<close> and \<open>getChatId "u2" "u1"\<close> are \<open>"u1_u2"\<close>.
\<close>

theorem getChatId_symmetric:
  "getChatId a b = getChatId b a
   \<and> getChatId (js ''u1'') (js ''u2'') = js ''u1_u2''
   \<and> getChatId (js ''u2'') (js ''u1'') = js ''u1_u2''"
proof -
  have "getChatId a b = getChatId b a"
    by (auto simp add: getChatId_unfold)
  moreover have "getChatId (js ''u1'') (js ''u2'') = js ''u1_u2''"
    by (simp add: getChatId_def js_def)
  moreover have "getChatId (js ''u2'') (js ''u1'') = js ''u1_u2''"
    by (simp add: getChatId_def js_def)
  ultimately show ?thesis by simp
qed

text \<open>
  Claim C7 as stated (for every \<open>a\<close> and all \<open>b \<noteq> c\<close> the ids
  \<open>getChatId a b\<close> and \<open>getChatId a c\<close> differ) fails when uids contain the
  separator: the user \<open>"a_b_a"\<close> has the same chat id, \<open>"a_b_a_b_a"\<close>, with
  the two distinct partners \<open>"a_b"\<close> and \<open>"b_a"\<close>.
\<close>

theorem getChatId_collision:
  "js ''a_b'' \<noteq> js ''b_a''
   \<and> getChatId (js ''a_b_a'') (js ''a_b'') = getChatId (js ''a_b_a'') (js ''b_a'')"
  by (simp add: getChatId_def js_def)

lemma prefix_not_less: "\<not> (a @ us < (a :: 'a::linorder list))"
  by (induction a) auto

text \<open>
  Two ways a word \<open>b _ a\<close> cannot be read as \<open>a _ c\<close>: when \<open>a\<close> has no
  separator and \<open>b\<close> sorts before \<open>a\<close>, and, unless \<open>b = c\<close>, when neither
  \<open>b\<close> nor \<open>c\<close> has one.
\<close>

lemma sep_shift_no_sep_in_mid:
  assumes "b @ x # a = a @ x # c" "x \<notin> set a" "b < (a :: 'a::linorder list)"
  shows False
proof -
  from assms(1) obtain us where
    "(b = a @ us \<and> us @ x # a = x # c) \<or> (b @ us = a \<and> x # a = us @ x # c)"
    by (auto simp add: append_eq_append_conv2)
  then show False
  proof
    assume "b = a @ us \<and> us @ x # a = x # c"
    with assms(3) show False using prefix_not_less by blast
  next
    assume h: "b @ us = a \<and> x # a = us @ x # c"
    show False
    proof (cases us)
      case Nil
      with h assms(3) show False by simp
    next
      case (Cons y ys)
      with h have "y = x" by simp
      with Cons h assms(2) show False by auto
    qed
  qed
qed

lemma sep_shift_no_sep_in_ends:
  "b @ x # a = a @ x # c \<Longrightarrow> x \<notin> set b \<Longrightarrow> x \<notin> set c \<Longrightarrow> b = c"
proof (induction a rule: length_induct)
  case (1 a)
  from 1(2) obtain us where
    "(b = a @ us \<and> us @ x # a = x # c) \<or> (b @ us = a \<and> x # a = us @ x # c)"
    by (auto simp add: append_eq_append_conv2)
  then show ?case
  proof
    assume h: "b = a @ us \<and> us @ x # a = x # c"
    show ?thesis
    proof (cases us)
      case Nil
      with h show ?thesis by simp
    next
      case (Cons y ys)
      with h have "y = x" by simp
      with Cons h 1(3) show ?thesis by auto
    qed
  next
    assume h: "b @ us = a \<and> x # a = us @ x # c"
    show ?thesis
    proof (cases us)
      case Nil
      with h show ?thesis by simp
    next
      case (Cons y ys)
      with h have yx: "y = x" and a1: "a = ys @ x # c" by simp_all
      from h Cons yx have a2: "a = b @ x # ys" by simp
      from a1 a2 have eq: "b @ x # ys = ys @ x # c" by simp
      from a1 have "length ys < length a" by simp
      with 1(1) eq 1(3) 1(4) show ?thesis by blast
    qed
  qed
qed

lemma getChatId_collide:
  assumes eq: "getChatId a b = getChatId a c" and ne: "b \<noteq> c"
  shows "(b < a \<and> b @ 0x5F # a = a @ 0x5F # c) \<or> (c < a \<and> c @ 0x5F # a = a @ 0x5F # b)"
proof -
  have "(if b < a then b @ 0x5F # a else a @ 0x5F # b)
      = (if c < a then c @ 0x5F # a else a @ 0x5F # c)"
    using eq unfolding getChatId_cases .
  with ne show ?thesis
    by (auto split: if_splits)
qed

text \<open>
  Claim C7, amended. When the shared uid \<open>a\<close> does not contain the separator
  \<open>_\<close>, or neither of the partners \<open>b\<close> and \<open>c\<close> contains it, distinct
  partners give distinct chat ids.
\<close>

theorem getChatId_injective_without_separator:
  assumes "of_char CHR ''_'' \<notin> set a
           \<or> (of_char CHR ''_'' \<notin> set b \<and> of_char CHR ''_'' \<notin> set c)"
      and "b \<noteq> c"
  shows "getChatId a b \<noteq> getChatId a c"
proof
  assume eq: "getChatId a b = getChatId a c"
  let ?x = "0x5F :: 16 word"
  have "of_char CHR ''_'' = ?x" by simp
  with assms(1) have hyp: "?x \<notin> set a \<or> (?x \<notin> set b \<and> ?x \<notin> set c)"
    by (simp only:)
  from getChatId_collide [OF eq assms(2)] obtain p q where
    pq: "p < a" "p @ ?x # a = a @ ?x # q" "p \<noteq> q"
        "?x \<in> set p \<or> ?x \<in> set q \<longrightarrow> ?x \<notin> set a"
    using assms(2) hyp by metis
  show False
  proof (cases "?x \<in> set a")
    case False
    with pq(2) show False using pq(1) by (rule sep_shift_no_sep_in_mid)
  next
    case True
    with pq(4) have "?x \<notin> set p" "?x \<notin> set q" by blast+
    with pq(2) have "p = q" by (rule sep_shift_no_sep_in_ends)
    with pq(3) show False by simp
  qed
qed

theorem getChatId_injective_witness:
  "js ''u2'' \<noteq> js ''u3''
   \<and> getChatId (js ''u1'') (js ''u2'') \<noteq> getChatId (js ''u1'') (js ''u3'')"
proof -
  have h1: "of_char CHR ''_'' \<notin> set (js ''u1'')
           \<or> (of_char CHR ''_'' \<notin> set (js ''u2'') \<and> of_char CHR ''_'' \<notin> set (js ''u3''))"
    by (simp add: js_def)
  have h2: "js ''u2'' \<noteq> js ''u3''" by (simp add: js_def)
  from getChatId_injective_without_separator [OF h1 h2] h2 show ?thesis by simp
qed

section \<open>Invariants of the component\<close>

lemma chatId_props [simp]:
  "chatId (s\<lparr>currentUser := u, chatPartner := p\<rparr>) = getChatId u p"
  by (simp add: chatId_def)

lemma sendInv_mount: "sendInv (mount u p st)"
  by (simp add: sendInv_def mount_def subscribeEffect_def)

lemma sendInv_step: "sendInv s \<Longrightarrow> sendInv (step s e)"
proof (cases e)
  case (Type v)
  assume "sendInv s" with Type show ?thesis by (simp add: sendInv_def)
next
  case (Submit newId)
  assume "sendInv s" with Submit show ?thesis
    by (simp add: sendInv_def handleSendMessage_def Let_def)
next
  case (CommitSettled out)
  assume "sendInv s" with CommitSettled show ?thesis
    by (cases "inflight s"; cases out)
       (simp_all add: sendInv_def sendSettled_def split: if_splits)
next
  case (Snapshot cid docs)
  assume "sendInv s" with Snapshot show ?thesis
    by (simp add: sendInv_def onSnapshotNext_def)
next
  case (ListenError cid code)
  assume "sendInv s" with ListenError show ?thesis
    by (simp add: sendInv_def onSnapshotError_def)
next
  case (Props u p)
  assume "sendInv s" with Props show ?thesis
    by (simp add: sendInv_def rerender_def)
next
  case Effect
  assume "sendInv s" with Effect show ?thesis
    by (simp add: sendInv_def runEffect_def subscribeEffect_def unsubscribe_def)
qed

lemma reachable_sendInv: "reachable s \<Longrightarrow> sendInv s"
  by (induction rule: reachable.induct) (simp_all add: sendInv_mount sendInv_step)

text \<open>
  Exactly one listener is registered at any time: the one of the chat id the effect
  last ran with.
\<close>

lemma listeners_mount: "listeners (mount u p st) = [effectDeps (mount u p st)]"
  by (simp add: mount_def subscribeEffect_def chatId_def)

lemma listeners_step:
  "listeners s = [effectDeps s] \<Longrightarrow> listeners (step s e) = [effectDeps (step s e)]"
proof (cases e)
  case (Type v)
  assume "listeners s = [effectDeps s]" with Type show ?thesis by simp
next
  case (Submit newId)
  assume "listeners s = [effectDeps s]" with Submit show ?thesis
    by (simp add: handleSendMessage_def Let_def)
next
  case (CommitSettled out)
  assume "listeners s = [effectDeps s]" with CommitSettled show ?thesis
    by (cases "inflight s"; cases out) (simp_all add: sendSettled_def)
next
  case (Snapshot cid docs)
  assume "listeners s = [effectDeps s]" with Snapshot show ?thesis
    by (simp add: onSnapshotNext_def)
next
  case (ListenError cid code)
  assume "listeners s = [effectDeps s]" with ListenError show ?thesis
    by (simp add: onSnapshotError_def)
next
  case (Props u p)
  assume "listeners s = [effectDeps s]" with Props show ?thesis
    by (simp add: rerender_def)
next
  case Effect
  assume "listeners s = [effectDeps s]" with Effect show ?thesis
    by (simp add: runEffect_def subscribeEffect_def unsubscribe_def)
qed

lemma reachable_listeners: "reachable s \<Longrightarrow> listeners s = [effectDeps s]"
  by (induction rule: reachable.induct) (simp_all add: listeners_mount listeners_step)

lemma run_Nil [simp]: "run s [] = s"
  by (simp add: run_def)

lemma run_Cons [simp]: "run s (e # evs) = run (step s e) evs"
  by (simp add: run_def)

lemma run_snoc: "run s (evs @ [e]) = step (run s evs) e"
  by (simp add: run_def)

lemma reachable_run: "reachable s \<Longrightarrow> reachable (run s evs)"
  by (induction evs arbitrary: s) (simp_all add: reachable_step)

text \<open>While one send awaits its commit, no other event touches it.\<close>

lemma interim_step:
  assumes "isSending s" "\<not> isSettle e"
  shows "isSending (step s e) \<and> inflight (step s e) = inflight s
         \<and> sendError (step s e) = sendError s \<and> db (step s e) = db s"
  using assms
  by (cases e)
     (simp_all add: handleSendMessage_def onSnapshotNext_def onSnapshotError_def
        rerender_def runEffect_def subscribeEffect_def unsubscribe_def)

lemma interim_run:
  assumes "isSending s" "\<forall>e \<in> set evs. \<not> isSettle e"
  shows "isSending (run s evs) \<and> inflight (run s evs) = inflight s
         \<and> sendError (run s evs) = sendError s \<and> db (run s evs) = db s"
  using assms
proof (induction evs arbitrary: s)
  case Nil
  then show ?case by simp
next
  case (Cons e evs)
  from Cons.prems have st: "isSending (step s e) \<and> inflight (step s e) = inflight s
         \<and> sendError (step s e) = sendError s \<and> db (step s e) = db s"
    by (simp add: interim_step)
  with Cons.IH [of "step s e"] Cons.prems show ?case by simp
qed

lemma messages_step: "\<not> isListenerEvent e \<Longrightarrow> messages (step s e) = messages s"
  by (cases e; cases "inflight s")
     (simp_all add: handleSendMessage_def sendSettled_def rerender_def runEffect_def
        Let_def subscribeEffect_def unsubscribe_def split: outcome.splits)

lemma draft_interim_step:
  assumes "isSending s" "\<not> isSettle e" "\<not> isType e"
  shows "newMessage (step s e) = newMessage s"
  using assms
  by (cases e)
     (simp_all add: handleSendMessage_def onSnapshotNext_def onSnapshotError_def
        rerender_def runEffect_def subscribeEffect_def unsubscribe_def)

lemma draft_interim_run:
  assumes "isSending s" "\<forall>e \<in> set evs. \<not> isSettle e \<and> \<not> isType e"
  shows "newMessage (run s evs) = newMessage s"
  using assms
proof (induction evs arbitrary: s)
  case Nil
  then show ?case by simp
next
  case (Cons e evs)
  from Cons.prems have "isSending (step s e)" "newMessage (step s e) = newMessage s"
    by (simp_all add: interim_step draft_interim_step)
  with Cons.IH [of "step s e"] Cons.prems show ?case by simp
qed

lemma submit_accepted:
  assumes "reachable s" "accepted s"
  shows "isSending (step s (Submit newId))
     \<and> sendError (step s (Submit newId)) = None
     \<and> newMessage (step s (Submit newId)) = []
     \<and> db (step s (Submit newId)) = db s
     \<and> messages (step s (Submit newId)) = messages s
     \<and> inflight (step s (Submit newId)) =
         [\<lparr>batch =
             [SetDoc (ChatDoc (chatId s))
                [(''participants'', ArrV [currentUser s, chatPartner s]),
                 (''lastMessageText'', StrV (trim (newMessage s))),
                 (''lastMessageTimestamp'', ServerTimestampV)] True,
              SetDoc (MessageDoc (chatId s) newId)
                [(''senderId'', StrV (currentUser s)),
                 (''text'', StrV (trim (newMessage s))),
                 (''createdAt'', ServerTimestampV)] False],
           textToSend = trim (newMessage s)\<rparr>]"
proof -
  from assms(1) have "sendInv s" by (rule reachable_sendInv)
  with assms(2) have "inflight s = []" by (simp add: sendInv_def accepted_def)
  with assms(2) show ?thesis
    by (simp add: handleSendMessage_def accepted_def Let_def)
qed

section \<open>Facts used by the claims\<close>

text \<open>
  The payloads of the two writes once the server has put its time \<open>t\<close> in place of the
  sentinel.
\<close>

lemma meta_map:
  "map_option (resolveTimestamp t) \<circ> map_of
      [(''participants'', ArrV [u, p]), (''lastMessageText'', StrV txt),
       (''lastMessageTimestamp'', ServerTimestampV)]
   = [''participants'' \<mapsto> ArrV [u, p], ''lastMessageText'' \<mapsto> StrV txt,
      ''lastMessageTimestamp'' \<mapsto> TimestampV t]"
  by (rule ext) simp

lemma msg_map:
  "map_option (resolveTimestamp t) \<circ> map_of
      [(''senderId'', StrV u), (''text'', StrV txt), (''createdAt'', ServerTimestampV)]
   = [''senderId'' \<mapsto> StrV u, ''text'' \<mapsto> StrV txt, ''createdAt'' \<mapsto> TimestampV t]"
  by (rule ext) simp

text \<open>
  The rest of the handler when exactly one send is pending.
\<close>

lemma settle_rejected:
  assumes "inflight s = [p]"
  shows "step s (CommitSettled (Rejected code)) =
           s\<lparr>inflight := [], newMessage := textToSend p,
             sendError := Some (if code = Some (js ''permission-denied'')
                                then sendDeniedMsg else sendFailedMsg),
             isSending := False\<rparr>"
  using assms by (simp add: sendSettled_def)

lemma settle_committed:
  assumes "inflight s = [p]"
  shows "step s (CommitSettled (Committed t)) =
           s\<lparr>inflight := [], isSending := False,
             db := foldl (applyWrite t) (db s) (batch p)\<rparr>"
  using assms by (simp add: sendSettled_def)

lemma fetchFailedMsg_nonempty: "fetchFailedMsg \<noteq> []"
  by (simp add: fetchFailedMsg_def)

lemma send_messages_differ: "sendDeniedMsg \<noteq> sendFailedMsg"
  by (simp add: sendDeniedMsg_def sendFailedMsg_def)

text \<open>
  A concrete state for the examples: user \<open>u1\<close> has opened the chat with \<open>u2\<close> on an
  empty store and typed \<open>" hi "\<close>.
\<close>

lemma example_reachable:
  "reachable (step (mount (js ''u1'') (js ''u2'') Map.empty) (Type (js '' hi '')))"
  by (intro reachable.intros)

lemma example_accepted:
  "accepted (step (mount (js ''u1'') (js ''u2'') Map.empty) (Type (js '' hi '')))"
  by (simp add: accepted_def mount_def subscribeEffect_def trim_def js_def isWhiteSpace_def)

lemma example_values:
  "trim (newMessage (step (mount (js ''u1'') (js ''u2'') Map.empty) (Type (js '' hi '')))) = js ''hi''"
  by (simp add: mount_def subscribeEffect_def trim_def js_def isWhiteSpace_def)

section \<open>The send protocol\<close>

text \<open>
  Claim C1. An accepted submission (trimmed draft not empty, no send in flight)
  hands exactly one batch to the store. The batch holds two writes: a merging set of
  the chat document with \<open>participants\<close> the current pair, \<open>lastMessageText\<close> the
  trimmed draft and \<open>lastMessageTimestamp\<close> the server-timestamp sentinel, and a set of
  a new message document with \<open>senderId\<close>, the trimmed draft as \<open>text\<close> and
  \<open>createdAt\<close> the sentinel. Nothing is written before the commit settles, whatever
  else happens meanwhile. When the commit is rejected the store is as it was; when
  it resolves at server time \<open>t\<close> both documents are written, the chat document
  keeping its other fields, and nothing else changes.
\<close>

theorem send_atomic_dual_write:
  assumes "reachable s" and "accepted s" and "\<forall>e \<in> set evs. \<not> isSettle e"
  shows
    "let txt = trim (newMessage s); cid = chatId s;
         s1 = step s (Submit newId); s2 = run s1 evs
     in inflight s1 =
          [\<lparr>batch =
              [SetDoc (ChatDoc cid)
                 [(''participants'', ArrV [currentUser s, chatPartner s]),
                  (''lastMessageText'', StrV txt),
                  (''lastMessageTimestamp'', ServerTimestampV)] True,
               SetDoc (MessageDoc cid newId)
                 [(''senderId'', StrV (currentUser s)),
                  (''text'', StrV txt),
                  (''createdAt'', ServerTimestampV)] False],
            textToSend = txt\<rparr>]
      \<and> db s1 = db s \<and> inflight s2 = inflight s1 \<and> db s2 = db s
      \<and> (\<forall>code. db (step s2 (CommitSettled (Rejected code))) = db s
                \<and> inflight (step s2 (CommitSettled (Rejected code))) = [])
      \<and> (\<forall>t. db (step s2 (CommitSettled (Committed t))) =
                 (db s)
                 (ChatDoc cid \<mapsto>
                    (case db s (ChatDoc cid) of
                       None \<Rightarrow>
                         [''participants'' \<mapsto> ArrV [currentUser s, chatPartner s],
                          ''lastMessageText'' \<mapsto> StrV txt,
                          ''lastMessageTimestamp'' \<mapsto> TimestampV t]
                     | Some old \<Rightarrow>
                         old ++
                         [''participants'' \<mapsto> ArrV [currentUser s, chatPartner s],
                          ''lastMessageText'' \<mapsto> StrV txt,
                          ''lastMessageTimestamp'' \<mapsto> TimestampV t]),
                  MessageDoc cid newId \<mapsto>
                    [''senderId'' \<mapsto> StrV (currentUser s),
                     ''text'' \<mapsto> StrV txt,
                     ''createdAt'' \<mapsto> TimestampV t])
              \<and> inflight (step s2 (CommitSettled (Committed t))) = [])"
proof -
  define s1 where "s1 = step s (Submit newId)"
  define s2 where "s2 = run s1 evs"
  define p where "p = \<lparr>batch =
              [SetDoc (ChatDoc (chatId s))
                 [(''participants'', ArrV [currentUser s, chatPartner s]),
                  (''lastMessageText'', StrV (trim (newMessage s))),
                  (''lastMessageTimestamp'', ServerTimestampV)] True,
               SetDoc (MessageDoc (chatId s) newId)
                 [(''senderId'', StrV (currentUser s)),
                  (''text'', StrV (trim (newMessage s))),
                  (''createdAt'', ServerTimestampV)] False],
            textToSend = trim (newMessage s)\<rparr>"
  from submit_accepted [OF assms(1,2), of newId]
  have a: "isSending s1" "db s1 = db s" "inflight s1 = [p]"
    by (simp_all add: s1_def p_def)
  from interim_run [OF a(1) assms(3)]
  have b: "inflight s2 = [p]" "db s2 = db s"
    by (simp_all add: s2_def a)
  have rej: "db (step s2 (CommitSettled (Rejected code))) = db s
       \<and> inflight (step s2 (CommitSettled (Rejected code))) = []" for code
    unfolding settle_rejected [OF b(1)] by (simp add: b(2))
  have com: "db (step s2 (CommitSettled (Committed t))) =
                 (db s)
                 (ChatDoc (chatId s) \<mapsto>
                    (case db s (ChatDoc (chatId s)) of
                       None \<Rightarrow>
                         [''participants'' \<mapsto> ArrV [currentUser s, chatPartner s],
                          ''lastMessageText'' \<mapsto> StrV (trim (newMessage s)),
                          ''lastMessageTimestamp'' \<mapsto> TimestampV t]
                     | Some old \<Rightarrow>
                         old ++
                         [''participants'' \<mapsto> ArrV [currentUser s, chatPartner s],
                          ''lastMessageText'' \<mapsto> StrV (trim (newMessage s)),
                          ''lastMessageTimestamp'' \<mapsto> TimestampV t]),
                  MessageDoc (chatId s) newId \<mapsto>
                    [''senderId'' \<mapsto> StrV (currentUser s),
                     ''text'' \<mapsto> StrV (trim (newMessage s)),
                     ''createdAt'' \<mapsto> TimestampV t])
              \<and> inflight (step s2 (CommitSettled (Committed t))) = []" for t
    unfolding settle_committed [OF b(1)]
    by (simp add: b(2) p_def Let_def meta_map msg_map del: map_of.simps fun_upd_apply)
  from a b rej com show ?thesis
    unfolding Let_def s1_def [symmetric] s2_def [symmetric] p_def [symmetric]
    by (simp add: p_def)
qed

theorem send_atomic_dual_write_witness:
  "reachable (step (mount (js ''u1'') (js ''u2'') Map.empty) (Type (js '' hi '')))
   \<and> accepted (step (mount (js ''u1'') (js ''u2'') Map.empty) (Type (js '' hi '')))
   \<and> \<not> isSettle (Type (js ''x''))
   \<and> db (step (run (step (step (mount (js ''u1'') (js ''u2'') Map.empty) (Type (js '' hi '')))
                       (Submit (js ''m1'')))
                  [Type (js ''x'')])
             (CommitSettled (Committed 7)))
      = [ChatDoc (js ''u1_u2'') \<mapsto>
           [''participants'' \<mapsto> ArrV [js ''u1'', js ''u2''],
            ''lastMessageText'' \<mapsto> StrV (js ''hi''),
            ''lastMessageTimestamp'' \<mapsto> TimestampV 7],
         MessageDoc (js ''u1_u2'') (js ''m1'') \<mapsto>
           [''senderId'' \<mapsto> StrV (js ''u1''),
            ''text'' \<mapsto> StrV (js ''hi''),
            ''createdAt'' \<mapsto> TimestampV 7]]"
proof -
  let ?s = "step (mount (js ''u1'') (js ''u2'') Map.empty) (Type (js '' hi ''))"
  have h1: "reachable ?s" by (rule example_reachable)
  have h2: "accepted ?s" by (rule example_accepted)
  have h3: "\<forall>e \<in> set [Type (js ''x'')]. \<not> isSettle e" by simp
  have v: "trim (newMessage ?s) = js ''hi''" "chatId ?s = js ''u1_u2''"
    "currentUser ?s = js ''u1''" "chatPartner ?s = js ''u2''" "db ?s = Map.empty"
    by (simp_all add: mount_def subscribeEffect_def trim_def js_def isWhiteSpace_def
          chatId_def getChatId_def)
  from send_atomic_dual_write [OF h1 h2 h3, of "js ''m1''"]
  have "db (step (run (step ?s (Submit (js ''m1''))) [Type (js ''x'')])
             (CommitSettled (Committed 7)))
      = [ChatDoc (js ''u1_u2'') \<mapsto>
           [''participants'' \<mapsto> ArrV [js ''u1'', js ''u2''],
            ''lastMessageText'' \<mapsto> StrV (js ''hi''),
            ''lastMessageTimestamp'' \<mapsto> TimestampV 7],
         MessageDoc (js ''u1_u2'') (js ''m1'') \<mapsto>
           [''senderId'' \<mapsto> StrV (js ''u1''),
            ''text'' \<mapsto> StrV (js ''hi''),
            ''createdAt'' \<mapsto> TimestampV 7]]"
    unfolding Let_def v by (simp del: step.simps run_Cons run_Nil)
  moreover have "\<not> isSettle (Type (js ''x''))" by simp
  ultimately show ?thesis using h1 h2 by blast
qed

text \<open>
  Claim C4. A submission whose trimmed draft is empty, or made while a send is in
  flight, changes nothing at all: the component state, the pending send and the
  store are what they were.
\<close>

theorem rejected_submit_is_noop:
  assumes "trim (newMessage s) = [] \<or> isSending s"
  shows "step s (Submit newId) = s"
  using assms by (simp add: handleSendMessage_def)

theorem rejected_submit_is_noop_witness:
  "(trim (newMessage (step (mount (js ''u1'') (js ''u2'') Map.empty) (Type (js ''  ''))))  = []
      \<or> isSending (step (mount (js ''u1'') (js ''u2'') Map.empty) (Type (js ''  ''))))
   \<and> step (step (mount (js ''u1'') (js ''u2'') Map.empty) (Type (js ''  ''))) (Submit (js ''m1''))
       = step (mount (js ''u1'') (js ''u2'') Map.empty) (Type (js ''  ''))
   \<and> (trim (newMessage (run (mount (js ''u1'') (js ''u2'') Map.empty)
                            [Type (js ''a''), Submit (js ''m1''), Type (js ''b'')])) = []
      \<or> isSending (run (mount (js ''u1'') (js ''u2'') Map.empty)
                            [Type (js ''a''), Submit (js ''m1''), Type (js ''b'')]))
   \<and> step (run (mount (js ''u1'') (js ''u2'') Map.empty)
               [Type (js ''a''), Submit (js ''m1''), Type (js ''b'')]) (Submit (js ''m2''))
       = run (mount (js ''u1'') (js ''u2'') Map.empty)
               [Type (js ''a''), Submit (js ''m1''), Type (js ''b'')]"
proof -
  have h1: "trim (newMessage (step (mount (js ''u1'') (js ''u2'') Map.empty) (Type (js ''  ''))))  = []
      \<or> isSending (step (mount (js ''u1'') (js ''u2'') Map.empty) (Type (js ''  '')))"
    by (simp add: trim_def js_def isWhiteSpace_def)
  have h2: "trim (newMessage (run (mount (js ''u1'') (js ''u2'') Map.empty)
                            [Type (js ''a''), Submit (js ''m1''), Type (js ''b'')])) = []
      \<or> isSending (run (mount (js ''u1'') (js ''u2'') Map.empty)
                            [Type (js ''a''), Submit (js ''m1''), Type (js ''b'')])"
    by (simp add: handleSendMessage_def mount_def subscribeEffect_def trim_def js_def
          isWhiteSpace_def Let_def)
  from rejected_submit_is_noop [OF h1, of "js ''m1''"]
       rejected_submit_is_noop [OF h2, of "js ''m2''"] h1 h2
  show ?thesis by blast
qed

text \<open>
  Claim C3. When the commit of an accepted submission is rejected, then, whatever
  the user typed and whatever the listener delivered meanwhile, the draft is exactly
  the trimmed text that was submitted, \<open>isSending\<close> is false, and \<open>sendError\<close> is
  set: to the access message for the code \<open>permission-denied\<close>, to the general
  message otherwise, and the two messages differ.
\<close>

theorem failed_send_restores_draft:
  assumes "reachable s" and "accepted s" and "\<forall>e \<in> set evs. \<not> isSettle e"
  shows
    "let s' = step (run (step s (Submit newId)) evs) (CommitSettled (Rejected code))
     in newMessage s' = trim (newMessage s)
      \<and> \<not> isSending s'
      \<and> sendError s' = Some (if code = Some (js ''permission-denied'')
                              then sendDeniedMsg else sendFailedMsg)
      \<and> sendDeniedMsg \<noteq> sendFailedMsg"
proof -
  define s1 where "s1 = step s (Submit newId)"
  define s2 where "s2 = run s1 evs"
  from submit_accepted [OF assms(1,2), of newId]
  have a: "isSending s1" "textToSend (hd (inflight s1)) = trim (newMessage s)"
    "length (inflight s1) = 1"
    by (simp_all add: s1_def)
  from interim_run [OF a(1) assms(3)] have b: "inflight s2 = inflight s1"
    by (simp add: s2_def)
  with a(3) obtain p where p: "inflight s2 = [p]" "inflight s1 = [p]"
    by (cases "inflight s1") simp_all
  with a(2) have t: "textToSend p = trim (newMessage s)" by simp
  show ?thesis
    unfolding Let_def s1_def [symmetric] s2_def [symmetric] settle_rejected [OF p(1)]
    by (simp add: t send_messages_differ)
qed

theorem failed_send_restores_draft_witness:
  "reachable (step (mount (js ''u1'') (js ''u2'') Map.empty) (Type (js '' hi '')))
   \<and> accepted (step (mount (js ''u1'') (js ''u2'') Map.empty) (Type (js '' hi '')))
   \<and> \<not> isSettle (Type (js ''typed meanwhile''))
   \<and> newMessage (step (run (step (step (mount (js ''u1'') (js ''u2'') Map.empty) (Type (js '' hi '')))
                              (Submit (js ''m1'')))
                         [Type (js ''typed meanwhile'')])
                    (CommitSettled (Rejected (Some (js ''permission-denied'')))))
      = js ''hi''
   \<and> sendError (step (run (step (step (mount (js ''u1'') (js ''u2'') Map.empty) (Type (js '' hi '')))
                              (Submit (js ''m1'')))
                         [Type (js ''typed meanwhile'')])
                    (CommitSettled (Rejected (Some (js ''permission-denied'')))))
      = Some sendDeniedMsg"
proof -
  let ?s = "step (mount (js ''u1'') (js ''u2'') Map.empty) (Type (js '' hi ''))"
  have h1: "reachable ?s" by (rule example_reachable)
  have h2: "accepted ?s" by (rule example_accepted)
  have h3: "\<forall>e \<in> set [Type (js ''typed meanwhile'')]. \<not> isSettle e" by simp
  from failed_send_restores_draft [OF h1 h2 h3, of "js ''m1''" "Some (js ''permission-denied'')"]
  have "newMessage (step (run (step ?s (Submit (js ''m1''))) [Type (js ''typed meanwhile'')])
                    (CommitSettled (Rejected (Some (js ''permission-denied'')))))
      = js ''hi''
   \<and> sendError (step (run (step ?s (Submit (js ''m1''))) [Type (js ''typed meanwhile'')])
                    (CommitSettled (Rejected (Some (js ''permission-denied'')))))
      = Some sendDeniedMsg"
    unfolding Let_def example_values by (simp del: step.simps run_Cons run_Nil)
  moreover have "\<not> isSettle (Type (js ''typed meanwhile''))" by simp
  ultimately show ?thesis using h1 h2 by blast
qed

text \<open>
  Claim C8 as stated says the draft is empty after every successful send. The
  input stays enabled while the send is in flight: what the user types then is still
  there when the commit resolves.
\<close>

theorem successful_send_keeps_interim_draft:
  "accepted (step (mount (js ''u1'') (js ''u2'') Map.empty) (Type (js ''hi'')))
   \<and> newMessage (run (step (mount (js ''u1'') (js ''u2'') Map.empty) (Type (js ''hi'')))
                     [Submit (js ''m1''), Type (js ''x''), CommitSettled (Committed 7)])
     \<noteq> []"
  by (simp add: accepted_def handleSendMessage_def sendSettled_def mount_def subscribeEffect_def
        trim_def js_def isWhiteSpace_def Let_def)

text \<open>
  Claim C8, amended. When the commit of an accepted submission resolves, the
  handler does not write the draft: it is what it was just before, and it is empty
  when nothing was typed since the submission. \<open>isSending\<close> is false. Neither half
  of the handler writes \<open>messages\<close>, and no event other than a delivery of the
  listener ever changes \<open>messages\<close>.
\<close>

theorem successful_send_frame:
  assumes "reachable s" and "accepted s" and "\<forall>e \<in> set evs. \<not> isSettle e"
  shows
    "let s1 = run (step s (Submit newId)) evs;
         s2 = step s1 (CommitSettled (Committed t))
     in newMessage s2 = newMessage s1
      \<and> ((\<forall>e \<in> set evs. \<not> isType e) \<longrightarrow> newMessage s2 = [])
      \<and> \<not> isSending s2
      \<and> messages (step s (Submit newId)) = messages s
      \<and> messages s2 = messages s1
      \<and> (\<forall>r e. \<not> isListenerEvent e \<longrightarrow> messages (step r e) = messages r)"
proof -
  define s0 where "s0 = step s (Submit newId)"
  define s1 where "s1 = run s0 evs"
  from submit_accepted [OF assms(1,2), of newId]
  have a: "isSending s0" "newMessage s0 = []" "messages s0 = messages s"
    "length (inflight s0) = 1"
    by (simp_all add: s0_def)
  from interim_run [OF a(1) assms(3)] have "inflight s1 = inflight s0"
    by (simp add: s1_def)
  with a(4) obtain q where q: "inflight s1 = [q]"
    by (cases "inflight s0") simp_all
  have d: "newMessage s1 = []" if "\<forall>e \<in> set evs. \<not> isType e"
  proof -
    from that assms(3) have "\<forall>e \<in> set evs. \<not> isSettle e \<and> \<not> isType e" by blast
    from draft_interim_run [OF a(1) this] a(2) show ?thesis by (simp add: s1_def)
  qed
  have m: "\<forall>r e. \<not> isListenerEvent e \<longrightarrow> messages (step r e) = messages r"
    by (simp add: messages_step)
  show ?thesis
    unfolding Let_def s0_def [symmetric] s1_def [symmetric] settle_committed [OF q]
    using a(3) d m by simp
qed

theorem successful_send_frame_witness:
  "reachable (step (mount (js ''u1'') (js ''u2'') Map.empty) (Type (js '' hi '')))
   \<and> accepted (step (mount (js ''u1'') (js ''u2'') Map.empty) (Type (js '' hi '')))
   \<and> \<not> isSettle (Snapshot (js ''u1_u2'') [])
   \<and> \<not> isType (Snapshot (js ''u1_u2'') [])
   \<and> newMessage (step (run (step (step (mount (js ''u1'') (js ''u2'') Map.empty) (Type (js '' hi '')))
                              (Submit (js ''m1'')))
                         [Snapshot (js ''u1_u2'') []])
                    (CommitSettled (Committed 7))) = []
   \<and> \<not> isSending (step (run (step (step (mount (js ''u1'') (js ''u2'') Map.empty) (Type (js '' hi '')))
                              (Submit (js ''m1'')))
                         [Snapshot (js ''u1_u2'') []])
                    (CommitSettled (Committed 7)))"
proof -
  let ?s = "step (mount (js ''u1'') (js ''u2'') Map.empty) (Type (js '' hi ''))"
  have h1: "reachable ?s" by (rule example_reachable)
  have h2: "accepted ?s" by (rule example_accepted)
  have h3: "\<forall>e \<in> set [Snapshot (js ''u1_u2'') []]. \<not> isSettle e" by simp
  have h4: "\<forall>e \<in> set [Snapshot (js ''u1_u2'') []]. \<not> isType e" by simp
  have h5: "\<not> isSettle (Snapshot (js ''u1_u2'') [])" "\<not> isType (Snapshot (js ''u1_u2'') [])"
    by simp_all
  from successful_send_frame [OF h1 h2 h3, of "js ''m1''" 7] h1 h2 h4 h5
  show ?thesis unfolding Let_def by blast
qed

text \<open>
  Claim C10. An accepted submission sets \<open>sendError\<close> to null, nothing sets it
  while the send is in flight, and the success path leaves it alone: after a
  successful send \<open>sendError\<close> is null, also when an earlier send had failed.
\<close>

theorem successful_send_clears_sendError:
  assumes "reachable s" and "accepted s" and "\<forall>e \<in> set evs. \<not> isSettle e"
  shows "sendError (step s (Submit newId)) = None
       \<and> sendError (run (step s (Submit newId)) evs) = None
       \<and> sendError (step (run (step s (Submit newId)) evs) (CommitSettled (Committed t))) = None"
proof -
  define s0 where "s0 = step s (Submit newId)"
  define s1 where "s1 = run s0 evs"
  from submit_accepted [OF assms(1,2), of newId]
  have a: "isSending s0" "sendError s0 = None" "length (inflight s0) = 1"
    by (simp_all add: s0_def)
  from interim_run [OF a(1) assms(3)]
  have b: "inflight s1 = inflight s0" "sendError s1 = None"
    by (simp_all add: s1_def a(2))
  with a(3) obtain q where q: "inflight s1 = [q]"
    by (cases "inflight s0") simp_all
  show ?thesis
    unfolding s0_def [symmetric] s1_def [symmetric] settle_committed [OF q]
    by (simp add: a(2) b(2))
qed

theorem successful_send_clears_sendError_witness:
  "reachable (run (mount (js ''u1'') (js ''u2'') Map.empty)
                [Type (js ''hi''), Submit (js ''m1''), CommitSettled (Rejected None)])
   \<and> accepted (run (mount (js ''u1'') (js ''u2'') Map.empty)
                [Type (js ''hi''), Submit (js ''m1''), CommitSettled (Rejected None)])
   \<and> \<not> isSettle (Type (js ''x''))
   \<and> sendError (run (mount (js ''u1'') (js ''u2'') Map.empty)
                [Type (js ''hi''), Submit (js ''m1''), CommitSettled (Rejected None)])
      = Some sendFailedMsg
   \<and> sendError (step (run (step (run (mount (js ''u1'') (js ''u2'') Map.empty)
                [Type (js ''hi''), Submit (js ''m1''), CommitSettled (Rejected None)])
                             (Submit (js ''m2''))) [Type (js ''x'')])
                     (CommitSettled (Committed 7))) = None"
proof -
  let ?s = "run (mount (js ''u1'') (js ''u2'') Map.empty)
                [Type (js ''hi''), Submit (js ''m1''), CommitSettled (Rejected None)]"
  have h1: "reachable ?s" by (intro reachable_run reachable.intros)
  have h2: "accepted ?s"
    by (simp add: accepted_def handleSendMessage_def sendSettled_def mount_def
          subscribeEffect_def trim_def js_def isWhiteSpace_def Let_def)
  have h3: "\<forall>e \<in> set [Type (js ''x'')]. \<not> isSettle e" by simp
  have e: "sendError ?s = Some sendFailedMsg"
    by (simp add: handleSendMessage_def sendSettled_def mount_def
          subscribeEffect_def trim_def js_def isWhiteSpace_def Let_def)
  have h4: "\<not> isSettle (Type (js ''x''))" by simp
  from successful_send_clears_sendError [OF h1 h2 h3, of "js ''m2''" 7] h1 h2 h4 e
  show ?thesis by blast
qed

section \<open>The subscription\<close>

text \<open>
  Claim C2. An error delivered by the listener is handled in one of two ways. With
  the code \<open>permission-denied\<close> the messages become the empty list,
  \<open>fetchError\<close> is null, \<open>isLoading\<close> is false and the pane shows the empty list,
  no error. With any other code \<open>fetchError\<close> is the user-facing message,
  \<open>isLoading\<close> is false and the pane shows that message. In particular a freshly
  mounted component that is denied access shows the empty list.
\<close>

theorem listener_error_classified:
  assumes "cid \<in> set (listeners s)"
  shows
    "(code = js ''permission-denied'' \<longrightarrow>
        messages (step s (ListenError cid code)) = []
        \<and> fetchError (step s (ListenError cid code)) = None
        \<and> \<not> isLoading (step s (ListenError cid code))
        \<and> messagePane (step s (ListenError cid code)) = MessageList [])
     \<and> (code \<noteq> js ''permission-denied'' \<longrightarrow>
        fetchError (step s (ListenError cid code)) = Some fetchFailedMsg
        \<and> \<not> isLoading (step s (ListenError cid code))
        \<and> messagePane (step s (ListenError cid code)) = ErrorBanner fetchFailedMsg)
     \<and> messagePane (step (mount u p st) (ListenError (getChatId u p) (js ''permission-denied'')))
         = MessageList []"
  using assms
  by (simp add: onSnapshotError_def messagePane_def fetchFailedMsg_nonempty
        mount_def subscribeEffect_def chatId_def)

theorem listener_error_classified_witness:
  "js ''u1_u2'' \<in> set (listeners (mount (js ''u1'') (js ''u2'') Map.empty))
   \<and> js ''unavailable'' \<noteq> js ''permission-denied''
   \<and> messagePane (step (mount (js ''u1'') (js ''u2'') Map.empty)
                     (ListenError (js ''u1_u2'') (js ''permission-denied''))) = MessageList []
   \<and> messagePane (step (mount (js ''u1'') (js ''u2'') Map.empty)
                     (ListenError (js ''u1_u2'') (js ''unavailable''))) = ErrorBanner fetchFailedMsg"
proof -
  have h: "js ''u1_u2'' \<in> set (listeners (mount (js ''u1'') (js ''u2'') Map.empty))"
    by (simp add: mount_def subscribeEffect_def chatId_def getChatId_def js_def)
  have n: "js ''unavailable'' \<noteq> js ''permission-denied''"
    by (simp add: js_def)
  from listener_error_classified
         [OF h, where code = "js ''permission-denied''" and u = "[]" and p = "[]" and st = Map.empty]
       listener_error_classified
         [OF h, where code = "js ''unavailable''" and u = "[]" and p = "[]" and st = Map.empty]
       h n
  show ?thesis by blast
qed

text \<open>
  Claim C9. An error of the listener with a code other than
  \<open>permission-denied\<close> leaves \<open>messages\<close> as it was: only \<open>fetchError\<close> and
  \<open>isLoading\<close> are written. The code \<open>permission-denied\<close> empties \<open>messages\<close>.
\<close>

theorem genuine_listener_error_keeps_messages:
  assumes "cid \<in> set (listeners s)" and "code \<noteq> js ''permission-denied''"
  shows "messages (step s (ListenError cid code)) = messages s
       \<and> step s (ListenError cid code) = s\<lparr>fetchError := Some fetchFailedMsg, isLoading := False\<rparr>
       \<and> messages (step s (ListenError cid (js ''permission-denied''))) = []"
  using assms by (simp add: onSnapshotError_def)

theorem genuine_listener_error_keeps_messages_witness:
  "js ''u1_u2'' \<in> set (listeners (step (mount (js ''u1'') (js ''u2'') Map.empty)
                      (Snapshot (js ''u1_u2'') [(js ''m1'', [(''text'', StrV (js ''hi''))])])))
   \<and> js ''unavailable'' \<noteq> js ''permission-denied''
   \<and> messages (step (step (mount (js ''u1'') (js ''u2'') Map.empty)
                      (Snapshot (js ''u1_u2'') [(js ''m1'', [(''text'', StrV (js ''hi''))])]))
                   (ListenError (js ''u1_u2'') (js ''unavailable'')))
     = [toMessage (js ''m1'', [(''text'', StrV (js ''hi''))])]
   \<and> messages (step (step (mount (js ''u1'') (js ''u2'') Map.empty)
                      (Snapshot (js ''u1_u2'') [(js ''m1'', [(''text'', StrV (js ''hi''))])]))
                   (ListenError (js ''u1_u2'') (js ''permission-denied''))) = []"
proof -
  let ?s = "step (mount (js ''u1'') (js ''u2'') Map.empty)
                      (Snapshot (js ''u1_u2'') [(js ''m1'', [(''text'', StrV (js ''hi''))])])"
  have h1: "js ''u1_u2'' \<in> set (listeners ?s)"
    by (simp add: mount_def subscribeEffect_def chatId_def getChatId_def onSnapshotNext_def js_def)
  have h2: "js ''unavailable'' \<noteq> js ''permission-denied''"
    by (simp add: js_def)
  have m: "messages ?s = [toMessage (js ''m1'', [(''text'', StrV (js ''hi''))])]"
    by (simp add: mount_def subscribeEffect_def chatId_def getChatId_def onSnapshotNext_def js_def)
  from genuine_listener_error_keeps_messages [OF h1 h2] h1 h2 m
  show ?thesis by metis
qed

text \<open>
  Claim C5 as stated says that a change of the chat id resets \<open>messages\<close> to the
  empty list. The effect has no \<open>setMessages\<close>: after a snapshot with one message,
  a render with another partner and the run of the effect, the message is still in
  the state.
\<close>

theorem chat_change_keeps_messages:
  "chatId (run (mount (js ''u1'') (js ''u2'') Map.empty)
              [Snapshot (js ''u1_u2'') [(js ''m1'', [(''text'', StrV (js ''hi''))])],
               Props (js ''u1'') (js ''u3''), Effect])
     \<noteq> chatId (mount (js ''u1'') (js ''u2'') Map.empty)
   \<and> listeners (run (mount (js ''u1'') (js ''u2'') Map.empty)
              [Snapshot (js ''u1_u2'') [(js ''m1'', [(''text'', StrV (js ''hi''))])],
               Props (js ''u1'') (js ''u3''), Effect])
     = [js ''u1_u3'']
   \<and> messages (run (mount (js ''u1'') (js ''u2'') Map.empty)
              [Snapshot (js ''u1_u2'') [(js ''m1'', [(''text'', StrV (js ''hi''))])],
               Props (js ''u1'') (js ''u3''), Effect])
     \<noteq> []"
  by (simp add: mount_def subscribeEffect_def unsubscribe_def rerender_def runEffect_def
        chatId_def getChatId_def onSnapshotNext_def js_def)

text \<open>
  Between the commit of the render and the run of the effect the pane shows the
  list of the previous chat: \<open>isLoading\<close> is still false.
\<close>

lemma render_before_effect_shows_previous_list:
  "messagePane (run (mount (js ''u1'') (js ''u2'') Map.empty)
                  [Snapshot (js ''u1_u2'') [(js ''m1'', [(''text'', StrV (js ''hi''))])],
                   Props (js ''u1'') (js ''u3'')])
     = MessageList [toMessage (js ''m1'', [(''text'', StrV (js ''hi''))])]"
  by (simp add: mount_def subscribeEffect_def rerender_def chatId_def getChatId_def
        onSnapshotNext_def messagePane_def js_def del: toMessage.simps)

text \<open>
  Claim C5, amended. When the chat id of the committed render differs from the one
  the effect last ran with, the run of the effect executes the cleanup before the
  body: the listener of the previous chat is removed before the one of the new chat
  is registered, so that none is registered in between and exactly the new one
  afterwards. No event of the new chat is applied before that run and none of the
  previous chat after it. The run sets \<open>isLoading\<close> to true and \<open>fetchError\<close> to
  null, and leaves \<open>messages\<close> as it was.
\<close>

theorem chat_change_resubscribes:
  assumes "reachable s" and "chatId s \<noteq> effectDeps s"
  shows
    "let s' = step s Effect
     in s' = subscribeEffect (unsubscribe (effectDeps s) s)
      \<and> listeners s = [effectDeps s]
      \<and> listeners (unsubscribe (effectDeps s) s) = []
      \<and> listeners s' = [chatId s]
      \<and> chatId s' = chatId s
      \<and> (\<forall>docs. step s (Snapshot (chatId s) docs) = s)
      \<and> (\<forall>code. step s (ListenError (chatId s) code) = s)
      \<and> isLoading s' \<and> fetchError s' = None
      \<and> messages s' = messages s
      \<and> (\<forall>docs. step s' (Snapshot (effectDeps s) docs) = s')
      \<and> (\<forall>code. step s' (ListenError (effectDeps s) code) = s')"
proof -
  from assms(1) have l: "listeners s = [effectDeps s]" by (rule reachable_listeners)
  from assms(2) have r: "step s Effect = subscribeEffect (unsubscribe (effectDeps s) s)"
    by (simp add: runEffect_def)
  have u: "listeners (unsubscribe (effectDeps s) s) = []"
    by (simp add: unsubscribe_def l)
  have f: "listeners (step s Effect) = [chatId s]"
    "chatId (step s Effect) = chatId s"
    "isLoading (step s Effect)" "fetchError (step s Effect) = None"
    "messages (step s Effect) = messages s"
    unfolding r by (simp_all add: subscribeEffect_def unsubscribe_def l chatId_def)
  from l assms(2) have early: "chatId s \<notin> set (listeners s)"
    by simp
  then have b: "step s (Snapshot (chatId s) docs) = s"
    "step s (ListenError (chatId s) code) = s" for docs code
    by simp_all
  from f(1) assms(2) have stale: "effectDeps s \<notin> set (listeners (step s Effect))"
    by simp
  then have g: "step (step s Effect) (Snapshot (effectDeps s) docs) = step s Effect"
    "step (step s Effect) (ListenError (effectDeps s) code) = step s Effect" for docs code
    by (simp_all del: step.simps(7) add: step.simps(4,5))
  from r l u f b g show ?thesis
    unfolding Let_def by blast
qed

theorem chat_change_resubscribes_witness:
  "reachable (run (mount (js ''u1'') (js ''u2'') Map.empty)
                [Snapshot (js ''u1_u2'') [(js ''m1'', [(''text'', StrV (js ''hi''))])],
                 Props (js ''u1'') (js ''u3'')])
   \<and> chatId (run (mount (js ''u1'') (js ''u2'') Map.empty)
                [Snapshot (js ''u1_u2'') [(js ''m1'', [(''text'', StrV (js ''hi''))])],
                 Props (js ''u1'') (js ''u3'')])
       \<noteq> effectDeps (run (mount (js ''u1'') (js ''u2'') Map.empty)
                [Snapshot (js ''u1_u2'') [(js ''m1'', [(''text'', StrV (js ''hi''))])],
                 Props (js ''u1'') (js ''u3'')])
   \<and> listeners (step (run (mount (js ''u1'') (js ''u2'') Map.empty)
                [Snapshot (js ''u1_u2'') [(js ''m1'', [(''text'', StrV (js ''hi''))])],
                 Props (js ''u1'') (js ''u3'')]) Effect)
       = [js ''u1_u3'']
   \<and> isLoading (step (run (mount (js ''u1'') (js ''u2'') Map.empty)
                [Snapshot (js ''u1_u2'') [(js ''m1'', [(''text'', StrV (js ''hi''))])],
                 Props (js ''u1'') (js ''u3'')]) Effect)
   \<and> messages (step (run (mount (js ''u1'') (js ''u2'') Map.empty)
                [Snapshot (js ''u1_u2'') [(js ''m1'', [(''text'', StrV (js ''hi''))])],
                 Props (js ''u1'') (js ''u3'')]) Effect)
       = [toMessage (js ''m1'', [(''text'', StrV (js ''hi''))])]"
proof -
  let ?s = "run (mount (js ''u1'') (js ''u2'') Map.empty)
                [Snapshot (js ''u1_u2'') [(js ''m1'', [(''text'', StrV (js ''hi''))])],
                 Props (js ''u1'') (js ''u3'')]"
  have h1: "reachable ?s" by (intro reachable_run reachable.intros)
  have h2: "chatId ?s \<noteq> effectDeps ?s"
    by (simp add: mount_def subscribeEffect_def rerender_def chatId_def getChatId_def
          onSnapshotNext_def js_def)
  have v: "chatId ?s = js ''u1_u3''"
    "messages ?s = [toMessage (js ''m1'', [(''text'', StrV (js ''hi''))])]"
    by (simp_all add: mount_def subscribeEffect_def rerender_def chatId_def getChatId_def
          onSnapshotNext_def js_def)
  from chat_change_resubscribes [OF h1 h2] h1 h2 v
  show ?thesis unfolding Let_def by metis
qed

end
